theory Spec2Isabelle
  imports Main "HOL-Library.Sublist"
begin

text \<open>
  The ownership service of \<^verbatim>\<open>main.py\<close> as functions of HOL: the classifier
  \<^verbatim>\<open>determine_entity_type\<close>, the fetch \<^verbatim>\<open>get_company_pscs\<close>, the recursive builder
  \<^verbatim>\<open>build_ownership_tree\<close>, the counter \<^verbatim>\<open>count_nodes\<close>, the search
  \<^verbatim>\<open>search_company_by_name\<close> and the request handler \<^verbatim>\<open>get_ownership_structure\<close>.
  The registry behind the HTTP client is a parameter of every function that reaches it.
  Exceptions are values: a function that can raise returns a sum whose left side is the
  exception. The wall clock and the log are left out.
\<close>

section \<open>Python values read from the provider's JSON\<close>

text \<open>
  A member of a JSON object is absent, \<open>null\<close>, or a value of the type the provider
  documents for it. Python's \<^verbatim>\<open>d.get(k)\<close> reads an absent member and a \<open>null\<close> one as
  \<open>None\<close>; \<^verbatim>\<open>d.get(k, default)\<close> reads only the absent one as the default.
\<close>

datatype 'a field = Absent | Null | Val 'a

definition get_none :: "'a field \<Rightarrow> 'a option" where
  "get_none f = (case f of Absent \<Rightarrow> None | Null \<Rightarrow> None | Val v \<Rightarrow> Some v)"

definition get_or :: "'a field \<Rightarrow> 'a \<Rightarrow> 'a option" where
  "get_or f dflt = (case f of Absent \<Rightarrow> Some dflt | Null \<Rightarrow> None | Val v \<Rightarrow> Some v)"

text \<open>
  The exceptions that \<^verbatim>\<open>except Exception\<close> catches in this program. Only \<^verbatim>\<open>str(e)\<close> is
  ever read from one; the text is produced by the interpreter and the libraries, so the
  world carries it as \<open>exc_text\<close>.
\<close>

datatype py_exception =
    AttributeError
  | TypeError
  | ValidationError
  | HTTPException
  | TransportError
  | JSONDecodeError

text \<open>\<^verbatim>\<open>d.get(k1, {}).get(k2)\<close> and \<^verbatim>\<open>d.get(k1, {}).get(k2, default)\<close>: a \<open>null\<close> at \<open>k1\<close> has no
  \<^verbatim>\<open>get\<close>.\<close>

definition sub_get :: "'r field \<Rightarrow> ('r \<Rightarrow> 'a field) \<Rightarrow> py_exception + 'a option" where
  "sub_get f sel =
     (case f of Absent \<Rightarrow> Inr None | Null \<Rightarrow> Inl AttributeError | Val r \<Rightarrow> Inr (get_none (sel r)))"

definition sub_get_or :: "'r field \<Rightarrow> ('r \<Rightarrow> 'a field) \<Rightarrow> 'a \<Rightarrow> py_exception + 'a option" where
  "sub_get_or f sel dflt =
     (case f of Absent \<Rightarrow> Inr (Some dflt) | Null \<Rightarrow> Inl AttributeError
      | Val r \<Rightarrow> Inr (get_or (sel r) dflt))"

text \<open>Truthiness of an optional string: \<open>None\<close> and the empty string are false.\<close>

definition truthy :: "string option \<Rightarrow> bool" where
  "truthy v = (case v of None \<Rightarrow> False | Some s \<Rightarrow> s \<noteq> [])"

subsection \<open>Strings\<close>

text \<open>
  Strings are byte strings here; \<open>lower\<close> and \<open>strip\<close> are Python's \<^verbatim>\<open>str.lower\<close> and
  \<^verbatim>\<open>str.strip\<close> on ASCII text.
\<close>

definition lower_char :: "char \<Rightarrow> char" where
  "lower_char c =
     (case map_of (zip ''ABCDEFGHIJKLMNOPQRSTUVWXYZ'' ''abcdefghijklmnopqrstuvwxyz'') c of
        Some l \<Rightarrow> l | None \<Rightarrow> c)"

definition lower :: "string \<Rightarrow> string" where
  "lower s = map lower_char s"

definition is_space :: "char \<Rightarrow> bool" where
  "is_space c = (c \<in> set [CHR 0x09, CHR 0x0A, CHR 0x0B, CHR 0x0C, CHR 0x0D,
                            CHR 0x1C, CHR 0x1D, CHR 0x1E, CHR 0x1F, CHR 0x20])"

definition strip :: "string \<Rightarrow> string" where
  "strip s = rev (dropWhile is_space (rev (dropWhile is_space s)))"

text \<open>\<^verbatim>\<open>sub in s\<close> on strings: \<open>sub\<close> occurs in \<open>s\<close> as a contiguous run.\<close>

fun str_contains :: "string \<Rightarrow> string \<Rightarrow> bool" where
  "str_contains sub [] = (sub = [])"
| "str_contains sub (c # cs) = (prefix sub (c # cs) \<or> str_contains sub cs)"

text \<open>The decimal text of a length, as an f-string prints it.\<close>

definition digit_char :: "nat \<Rightarrow> char" where
  "digit_char d = ''0123456789'' ! d"

fun str_nat :: "nat \<Rightarrow> string" where
  "str_nat n = (if n < 10 then [digit_char n] else str_nat (n div 10) @ [digit_char (n mod 10)])"

declare str_nat.simps [simp del]


section \<open>The data model\<close>

text \<open>
  A raw controlling-party record as the registry documents it (\<open>kind\<close>, \<open>name\<close>,
  \<open>name_elements\<close>, \<open>country_of_residence\<close>, \<open>natures_of_control\<close>, \<open>ceased_on\<close>,
  \<open>identification\<close>, \<open>links\<close>). The members are prefixed \<open>raw_\<close> because the program's
  local variables carry the plain names.
\<close>

record name_elements =
  forename :: "string field"
  surname :: "string field"

record identification =
  registration_number :: "string field"
  country_registered :: "string field"

record links =
  links_self :: "string field"

record psc =
  raw_kind :: "string field"
  raw_name :: "string field"
  raw_name_elements :: "name_elements field"
  raw_country_of_residence :: "string field"
  raw_natures_of_control :: "string list field"
  raw_ceased_on :: "string field"
  raw_identification :: "identification field"
  raw_links :: "links field"

text \<open>An item of the company search: \<open>company_status\<close>, \<open>title\<close>, \<open>company_number\<close>.\<close>

record company =
  co_company_status :: "string field"
  co_title :: "string field"
  co_company_number :: "string field"

text \<open>
  \<^verbatim>\<open>class PSCNode(BaseModel)\<close>: the fields in the order of the class, with the defaults
  written out where a node is made. The selectors are prefixed \<open>node_\<close>.
\<close>

datatype PSCNode = PSCNode
  (node_id: string)
  (node_name: string)
  (node_type: string)
  (node_company_number: "string option")
  (node_country_of_residence: "string option")
  (node_nature_of_control: "string list")
  (node_children: "PSCNode list")
  (node_is_active: bool)
  (node_error: "string option")

text \<open>Attribute assignments \<^verbatim>\<open>node.children = ...\<close>, \<^verbatim>\<open>node.company_number = ...\<close>,
  \<^verbatim>\<open>node.error = ...\<close>.\<close>

definition set_children :: "PSCNode list \<Rightarrow> PSCNode \<Rightarrow> PSCNode" where
  "set_children ch n = (case n of PSCNode i nm ty cn cr noc _ act er \<Rightarrow> PSCNode i nm ty cn cr noc ch act er)"

definition set_company_number :: "string option \<Rightarrow> PSCNode \<Rightarrow> PSCNode" where
  "set_company_number cn n = (case n of PSCNode i nm ty _ cr noc ch act er \<Rightarrow> PSCNode i nm ty cn cr noc ch act er)"

definition set_error :: "string option \<Rightarrow> PSCNode \<Rightarrow> PSCNode" where
  "set_error er n = (case n of PSCNode i nm ty cn cr noc ch act _ \<Rightarrow> PSCNode i nm ty cn cr noc ch act er)"

text \<open>\<^verbatim>\<open>class OwnershipResponse(BaseModel)\<close>, without the wall-clock \<open>processing_time\<close>.\<close>

record OwnershipResponse =
  root_company :: PSCNode
  total_nodes :: int
  errors_list :: "string list"

section \<open>The registry\<close>

text \<open>
  What an HTTP request comes to: the client raises, or a response arrives with a status
  code and a body. The body is \<open>None\<close> when \<^verbatim>\<open>response.json()\<close> raises or the decoded value
  is no object, and otherwise the \<open>items\<close> member of the decoded object.
\<close>

datatype 'a http_outcome = Raised py_exception | Response int "'a list field option"

text \<open>
  The world a request runs in: the API key of the environment, the answers of the
  registry to a company search (by query) and to a controlling-parties fetch (by company
  number, finitely many; a number that is not listed is answered 404), and the text
  \<^verbatim>\<open>str(e)\<close> of each exception.
\<close>

record world =
  api_key :: "string option"
  search_http :: "string \<Rightarrow> company http_outcome"
  psc_http :: "(string \<times> psc http_outcome) list"
  exc_text :: "py_exception \<Rightarrow> string"

definition get_auth_headers :: "world \<Rightarrow> py_exception + string" where
  "get_auth_headers w =
     (case api_key w of
        None \<Rightarrow> Inl HTTPException
      | Some k \<Rightarrow> if k = [] then Inl HTTPException else Inr (''Basic '' @ k @ '':''))"

definition http_get_pscs :: "world \<Rightarrow> string \<Rightarrow> psc http_outcome" where
  "http_get_pscs w company_number =
     (case map_of (psc_http w) company_number of Some r \<Rightarrow> r | None \<Rightarrow> Response 404 None)"

text \<open>
  \<^verbatim>\<open>get_company_pscs\<close>: every exception (no API key, transport, decoding) is caught inside
  and answered with the empty list. The result is \<open>None\<close> where Python returns \<^verbatim>\<open>None\<close>
  (an \<open>items\<close> member that is \<open>null\<close>).
\<close>

definition get_company_pscs :: "world \<Rightarrow> string \<Rightarrow> psc list option" where
  "get_company_pscs w company_number =
     (case get_auth_headers w of
        Inl e \<Rightarrow> Some []
      | Inr headers \<Rightarrow>
          (case http_get_pscs w company_number of
             Raised e \<Rightarrow> Some []
           | Response status_code body \<Rightarrow>
               if status_code = 200 then
                 (case body of None \<Rightarrow> Some [] | Some items \<Rightarrow> get_or items [])
               else if status_code = 404 then Some []
               else Some []))"

section \<open>Classification\<close>

definition uk_countries :: "string list" where
  "uk_countries = [''england'', ''wales'', ''scotland'', ''northern ireland'', ''united kingdom'', ''uk'']"

definition determine_entity_type :: "psc \<Rightarrow> py_exception + string" where
  "determine_entity_type psc =
     (case get_or (raw_kind psc) [] of
        None \<Rightarrow> Inl TypeError
      | Some kind \<Rightarrow>
          if str_contains ''individual'' kind then Inr ''individual''
          else if str_contains ''corporate-entity'' kind \<or> str_contains ''legal-person'' kind then
            (case (if truthy (get_none (raw_country_of_residence psc))
                   then Inr (get_none (raw_country_of_residence psc))
                   else sub_get (raw_identification psc) country_registered) of
               Inl e \<Rightarrow> Inl e
             | Inr country \<Rightarrow>
                 (case country of
                    None \<Rightarrow> Inr ''non_uk_company''
                  | Some c \<Rightarrow>
                      if c \<noteq> [] \<and> lower c \<in> set uk_countries then Inr ''uk_company''
                      else Inr ''non_uk_company''))
          else Inr ''individual'')"

section \<open>Building the tree\<close>

text \<open>Line 166: the direct name when it is truthy, else forename, a space and surname
  (a \<open>null\<close> forename or surname cannot be concatenated).\<close>

definition name_from_elements :: "psc \<Rightarrow> py_exception + string" where
  "name_from_elements psc =
     (case sub_get_or (raw_name_elements psc) forename [] of
        Inl e \<Rightarrow> Inl e
      | Inr None \<Rightarrow> Inl TypeError
      | Inr (Some fore) \<Rightarrow>
          (case sub_get_or (raw_name_elements psc) surname [] of
             Inl e \<Rightarrow> Inl e
           | Inr None \<Rightarrow> Inl TypeError
           | Inr (Some sur) \<Rightarrow> Inr (fore @ '' '' @ sur)))"

definition psc_display_name :: "psc \<Rightarrow> py_exception + string" where
  "psc_display_name psc =
     (case get_none (raw_name psc) of
        Some n \<Rightarrow> if n \<noteq> [] then Inr n else name_from_elements psc
      | None \<Rightarrow> name_from_elements psc)"

text \<open>Lines 169 to 177: the node of a record, before any expansion. The model validates
  \<open>id\<close> as a string and \<open>nature_of_control\<close> as a list, so a \<open>null\<close> is refused.\<close>

definition new_psc_node :: "psc \<Rightarrow> nat \<Rightarrow> string \<Rightarrow> string \<Rightarrow> py_exception + PSCNode" where
  "new_psc_node psc n_children psc_name psc_type =
     (case sub_get_or (raw_links psc) links_self (''psc_'' @ str_nat n_children) of
        Inl e \<Rightarrow> Inl e
      | Inr ident \<Rightarrow>
          (case (ident, get_or (raw_natures_of_control psc) []) of
             (Some i, Some nature_of_control) \<Rightarrow>
               Inr (PSCNode i (strip psc_name) psc_type None
                      (get_none (raw_country_of_residence psc)) nature_of_control [] True None)
           | _ \<Rightarrow> Inl ValidationError))"

text \<open>Lines 166 to 177 in their order: name, type, node.\<close>

definition psc_leaf :: "psc \<Rightarrow> nat \<Rightarrow> py_exception + (string \<times> string \<times> PSCNode)" where
  "psc_leaf psc n_children =
     (case psc_display_name psc of
        Inl e \<Rightarrow> Inl e
      | Inr psc_name \<Rightarrow>
          (case determine_entity_type psc of
             Inl e \<Rightarrow> Inl e
           | Inr psc_type \<Rightarrow>
               (case new_psc_node psc n_children psc_name psc_type of
                  Inl e \<Rightarrow> Inl e
                | Inr psc_node \<Rightarrow> Inr (psc_name, psc_type, psc_node))))"

definition circular_node :: "string \<Rightarrow> string \<Rightarrow> PSCNode" where
  "circular_node company_number company_name =
     PSCNode company_number (company_name @ '' (circular reference)'') ''uk_company''
       (Some company_number) None [] [] True (Some ''Circular reference detected'')"

definition processing_error :: "world \<Rightarrow> string \<Rightarrow> py_exception \<Rightarrow> string" where
  "processing_error w company_number e =
     ''Error processing PSCs for '' @ company_number @ '': '' @ exc_text w e"

text \<open>
  \<^verbatim>\<open>build_ownership_tree\<close> and its loop over the fetched records. The visited set and the
  error list are mutable objects in the source: the function returns both as it leaves
  them. The caller hands over \<^verbatim>\<open>visited.copy()\<close>, so it drops the returned set and goes on
  with its own; it hands over \<open>errors\<close> itself, so it goes on with the returned list.
  The loop returns the exception that ended it, if any, with the children appended so
  far. Nothing outside the \<^verbatim>\<open>try\<close> of \<^verbatim>\<open>build_ownership_tree\<close> raises on strings, and the
  interpreter's recursion limit is not modelled, so the handler of lines 196 to 199 has
  no exception to catch.
\<close>

function build_ownership_tree ::
    "world \<Rightarrow> string \<Rightarrow> string \<Rightarrow> string set \<Rightarrow> string list \<Rightarrow> int
      \<Rightarrow> PSCNode \<times> string set \<times> string list"
  and process_pscs ::
    "world \<Rightarrow> string set \<Rightarrow> int \<Rightarrow> psc list \<Rightarrow> PSCNode list \<Rightarrow> string list
      \<Rightarrow> py_exception option \<times> PSCNode list \<times> string list"
where
  "build_ownership_tree w company_number company_name visited errors depth =
     (if company_number \<in> visited then
        (circular_node company_number company_name, visited, errors)
      else
        let visited' = insert company_number visited;
            root_node = PSCNode company_number company_name ''uk_company''
                          (Some company_number) None [] [] True None
        in case (case get_company_pscs w company_number of
                   None \<Rightarrow> (Some TypeError, [], errors)
                 | Some pscs \<Rightarrow> process_pscs w visited' depth pscs [] errors) of
             (None, children, errors') \<Rightarrow> (set_children children root_node, visited', errors')
           | (Some e, children, errors') \<Rightarrow>
               let error_msg = processing_error w company_number e
               in (set_error (Some error_msg) (set_children children root_node),
                   visited', errors' @ [error_msg]))"
| "process_pscs w visited depth [] children errors = (None, children, errors)"
| "process_pscs w visited depth (psc # pscs) children errors =
     (if get_none (raw_ceased_on psc) \<noteq> None then
        process_pscs w visited depth pscs children errors
      else
        case psc_leaf psc (length children) of
          Inl e \<Rightarrow> (Some e, children, errors)
        | Inr (psc_name, psc_type, psc_node) \<Rightarrow>
            (case (if psc_type = ''uk_company'' then
                     (case sub_get (raw_identification psc) registration_number of
                        Inl e \<Rightarrow> Inl e
                      | Inr None \<Rightarrow> Inr (psc_node, errors)
                      | Inr (Some psc_company_number) \<Rightarrow>
                          if psc_company_number \<noteq> [] then
                            (case build_ownership_tree w psc_company_number (strip psc_name)
                                    visited errors (depth + 1) of
                               (child_tree, visited_copy, errors') \<Rightarrow>
                                 Inr (set_children (node_children child_tree)
                                        (set_company_number (Some psc_company_number) psc_node),
                                      errors'))
                          else Inr (psc_node, errors))
                   else Inr (psc_node, errors)) of
               Inl e \<Rightarrow> (Some e, children, errors)
             | Inr (psc_node', errors') \<Rightarrow>
                 process_pscs w visited depth pscs (children @ [psc_node']) errors'))"
  by pat_completeness auto

section \<open>Counting and the request\<close>

text \<open>\<^verbatim>\<open>count_nodes\<close>: the loop over the children adds each child's count to the running
  count, which starts at 1.\<close>

fun count_nodes :: "PSCNode \<Rightarrow> int"
  and count_children :: "int \<Rightarrow> PSCNode list \<Rightarrow> int"
where
  "count_nodes (PSCNode i nm ty cn cr noc ch act er) = count_children 1 ch"
| "count_children count [] = count"
| "count_children count (child # rest) = count_children (count + count_nodes child) rest"

text \<open>\<^verbatim>\<open>search_company_by_name\<close>: the first loop returns the first active company whose
  title contains the query, case-insensitively; the second the first active one. Every
  exception ends in \<^verbatim>\<open>None\<close>.\<close>

fun first_title_match :: "string \<Rightarrow> company list \<Rightarrow> py_exception + company option" where
  "first_title_match company_name [] = Inr None"
| "first_title_match company_name (company # companies) =
     (if get_none (co_company_status company) = Some ''active'' then
        (case get_or (co_title company) [] of
           None \<Rightarrow> Inl AttributeError
         | Some title \<Rightarrow>
             if str_contains (lower company_name) (lower title) then Inr (Some company)
             else first_title_match company_name companies)
      else first_title_match company_name companies)"

fun first_active :: "company list \<Rightarrow> company option" where
  "first_active [] = None"
| "first_active (company # companies) =
     (if get_none (co_company_status company) = Some ''active'' then Some company
      else first_active companies)"

definition search_company_by_name :: "world \<Rightarrow> string \<Rightarrow> company option" where
  "search_company_by_name w company_name =
     (case get_auth_headers w of
        Inl e \<Rightarrow> None
      | Inr headers \<Rightarrow>
          (case search_http w company_name of
             Raised e \<Rightarrow> None
           | Response status_code body \<Rightarrow>
               if status_code = 200 then
                 (case body of
                    None \<Rightarrow> None
                  | Some items \<Rightarrow>
                      (case get_or items [] of
                         None \<Rightarrow> None
                       | Some companies \<Rightarrow>
                           (case first_title_match company_name companies of
                              Inl e \<Rightarrow> None
                            | Inr (Some company) \<Rightarrow> Some company
                            | Inr None \<Rightarrow> first_active companies)))
               else None))"

datatype http_error = HTTPError int string

text \<open>\<^verbatim>\<open>get_ownership_structure\<close>. A company without a title reaches the root node's
  validation, outside any \<^verbatim>\<open>try\<close> of the builder, and ends in the status 500.\<close>

definition get_ownership_structure :: "world \<Rightarrow> string \<Rightarrow> http_error + OwnershipResponse" where
  "get_ownership_structure w request_company_name =
     (case search_company_by_name w request_company_name of
        None \<Rightarrow>
          Inl (HTTPError 404 (''Company '' @ [CHR 0x27] @ request_company_name @ [CHR 0x27]
                                @ '' not found''))
      | Some company_info \<Rightarrow>
          (case get_none (co_company_number company_info) of
             None \<Rightarrow> Inl (HTTPError 400 ''Could not determine company number'')
           | Some company_number \<Rightarrow>
               if company_number = [] then
                 Inl (HTTPError 400 ''Could not determine company number'')
               else
                 (case get_none (co_title company_info) of
                    None \<Rightarrow>
                      Inl (HTTPError 500 (''Internal server error: '' @ exc_text w ValidationError))
                  | Some company_name \<Rightarrow>
                      (case build_ownership_tree w company_number company_name {} [] 0 of
                         (ownership_tree, visited, errors) \<Rightarrow>
                           Inr \<lparr>root_company = ownership_tree,
                                total_nodes = count_nodes ownership_tree,
                                errors_list = errors\<rparr>))))"

section \<open>Trees\<close>

text \<open>The nodes of a tree, the node first, then the nodes under each child in order.\<close>

fun all_nodes :: "PSCNode \<Rightarrow> PSCNode list" where
  "all_nodes (PSCNode i nm ty cn cr noc ch act er) =
     PSCNode i nm ty cn cr noc ch act er # concat (map all_nodes ch)"

text \<open>The nodes strictly below the root.\<close>

definition descendants :: "PSCNode \<Rightarrow> PSCNode list" where
  "descendants n = concat (map all_nodes (node_children n))"

text \<open>The number of edges on the longest path from a node down to a leaf.\<close>

fun height :: "PSCNode \<Rightarrow> nat" where
  "height (PSCNode i nm ty cn cr noc ch act er) =
     foldr (\<lambda>child m. max (Suc (height child)) m) ch 0"

text \<open>
  The node reached from a node by a path of child indices, and the company numbers of
  the nodes passed on the way (the node the path starts at included, the node it ends at
  not).
\<close>

fun subtree :: "PSCNode \<Rightarrow> nat list \<Rightarrow> PSCNode option" where
  "subtree n [] = Some n"
| "subtree n (i # p) =
     (if i < length (node_children n) then subtree (node_children n ! i) p else None)"

fun path_numbers :: "PSCNode \<Rightarrow> nat list \<Rightarrow> string set" where
  "path_numbers n [] = {}"
| "path_numbers n (i # p) =
     set_option (node_company_number n) \<union>
     (if i < length (node_children n) then path_numbers (node_children n ! i) p else {})"

section \<open>Scenarios\<close>

definition plain_exc_text :: "py_exception \<Rightarrow> string" where
  "plain_exc_text e =
     (case e of AttributeError \<Rightarrow> ''attribute error'' | TypeError \<Rightarrow> ''type error''
      | ValidationError \<Rightarrow> ''validation error'' | HTTPException \<Rightarrow> ''http exception''
      | TransportError \<Rightarrow> ''connection failed'' | JSONDecodeError \<Rightarrow> ''json decode error'')"

text \<open>A corporate record with a direct name, a registered country and a registration
  number, and an individual with name elements only.\<close>

definition corporate_psc :: "string \<Rightarrow> string \<Rightarrow> string \<Rightarrow> psc" where
  "corporate_psc nm country reg =
     \<lparr>raw_kind = Val ''corporate-entity-person-with-significant-control'',
      raw_name = Val nm, raw_name_elements = Absent, raw_country_of_residence = Absent,
      raw_natures_of_control = Val [''ownership-of-shares-75-to-100-percent''],
      raw_ceased_on = Absent,
      raw_identification = Val \<lparr>registration_number = Val reg, country_registered = Val country\<rparr>,
      raw_links = Absent\<rparr>"

definition individual_psc :: "string \<Rightarrow> string \<Rightarrow> psc" where
  "individual_psc fore sur =
     \<lparr>raw_kind = Val ''individual-person-with-significant-control'',
      raw_name = Absent,
      raw_name_elements = Val \<lparr>forename = Val fore, surname = Val sur\<rparr>,
      raw_country_of_residence = Val ''England'',
      raw_natures_of_control = Val [''voting-rights-25-to-50-percent''],
      raw_ceased_on = Absent, raw_identification = Absent, raw_links = Absent\<rparr>"

definition acme_search :: "string \<Rightarrow> company http_outcome" where
  "acme_search q =
     Response 200 (Some (Val [\<lparr>co_company_status = Val ''active'', co_title = Val ''Acme Ltd'',
                               co_company_number = Val ''001''\<rparr>]))"

text \<open>``001'' owns ``002'' owns ``001''.\<close>

definition cycle_world :: world where
  "cycle_world =
     \<lparr>api_key = Some ''key'', search_http = acme_search,
      psc_http =
        [(''001'', Response 200 (Some (Val [corporate_psc ''Beta Ltd'' ''England'' ''002'']))),
         (''002'', Response 200 (Some (Val [corporate_psc ''Acme Ltd'' ''England'' ''001''])))],
      exc_text = plain_exc_text\<rparr>"

text \<open>The fetch for ``001'' raises in the client.\<close>

definition transport_error_world :: world where
  "transport_error_world =
     \<lparr>api_key = Some ''key'', search_http = acme_search,
      psc_http = [(''001'', Raised TransportError)],
      exc_text = plain_exc_text\<rparr>"

text \<open>``001'' is controlled by an individual and by ``002'', which has no records.\<close>

definition acme_world :: world where
  "acme_world =
     \<lparr>api_key = Some ''key'', search_http = acme_search,
      psc_http =
        [(''001'', Response 200 (Some (Val [individual_psc '' Jane'' ''Doe'',
                                            corporate_psc ''Beta Ltd'' ''England'' ''002'']))),
         (''002'', Response 200 (Some (Val [])))],
      exc_text = plain_exc_text\<rparr>"

text \<open>``004'' is reached through ``002'' and through ``003'', both under ``001''.\<close>

definition diamond_world :: world where
  "diamond_world =
     \<lparr>api_key = Some ''key'', search_http = acme_search,
      psc_http =
        [(''001'', Response 200 (Some (Val [corporate_psc ''Left Ltd'' ''England'' ''002'',
                                            corporate_psc ''Right Ltd'' ''Wales'' ''003'']))),
         (''002'', Response 200 (Some (Val [corporate_psc ''Shared Ltd'' ''Scotland'' ''004'']))),
         (''003'', Response 200 (Some (Val [corporate_psc ''Shared Ltd'' ''Scotland'' ''004'']))),
         (''004'', Response 200 (Some (Val [individual_psc ''Jane'' ''Doe''])))],
      exc_text = plain_exc_text\<rparr>"



text \<open>A record whose \<open>ceased_on\<close> is present and the empty string, and one with
  neither a name nor name elements.\<close>

definition empty_ceased_psc :: psc where
  "empty_ceased_psc = (individual_psc ''Jane'' ''Doe'')\<lparr>raw_ceased_on := Val []\<rparr>"




section \<open>Termination\<close>

text \<open>Only a company that the registry lists has records to loop over.\<close>

lemma fetched_records_listed:
  "get_company_pscs w company_number = Some pscs \<Longrightarrow> pscs \<noteq> []
     \<Longrightarrow> company_number \<in> fst ` set (psc_http w)"
  by (auto simp: get_company_pscs_def http_get_pscs_def get_or_def map_of_eq_None_iff
      split: sum.splits http_outcome.splits if_splits option.splits field.splits
      dest!: map_of_SomeD intro: rev_image_eqI)

lemma build_call_decreases:
  assumes "company_number \<notin> visited" and "get_company_pscs w company_number = Some pscs"
    and "pscs \<noteq> []"
  shows "card (fst ` set (psc_http w) - insert company_number visited)
           < card (fst ` set (psc_http w) - visited)"
proof -
  let ?K = "fst ` set (psc_http w)"
  have "company_number \<in> ?K - visited"
    using assms fetched_records_listed by blast
  moreover have "?K - insert company_number visited = (?K - visited) - {company_number}"
    by auto
  moreover have "finite (?K - visited)" by simp
  ultimately show ?thesis
    by (metis card_Diff1_less)
qed

text \<open>
  Every call that goes on to loop over a non-empty list adds a listed, unvisited company
  number to the visited set of its branch, so the number of listed companies outside the
  visited set goes down from one call of \<open>build_ownership_tree\<close> to the next below it.
\<close>

termination build_ownership_tree
  apply (relation "measures [
     (\<lambda>x. case x of
        Inl (w, company_number, company_name, visited, errors, depth) \<Rightarrow>
          2 * card (fst ` set (psc_http w) - visited) + 2
      | Inr (w, visited, depth, pscs, children, errors) \<Rightarrow>
          (if pscs = [] then 0 else 2 * card (fst ` set (psc_http w) - visited) + 3)),
     (\<lambda>x. case x of Inl _ \<Rightarrow> 0 | Inr (w, visited, depth, pscs, children, errors) \<Rightarrow> length pscs)]")
      apply simp
     apply (simp, use build_call_decreases in fastforce)
    apply simp
   apply simp
  apply simp
  done

declare build_ownership_tree.simps [simp del]
declare process_pscs.simps [simp del]

text \<open>The definitions that evaluate a request in a concrete world.\<close>

lemmas eval_defs =
  get_ownership_structure_def search_company_by_name_def get_auth_headers_def acme_search_def
  get_or_def get_none_def lower_def lower_char_def
  build_ownership_tree.simps process_pscs.simps get_company_pscs_def http_get_pscs_def
  corporate_psc_def individual_psc_def psc_leaf_def psc_display_name_def
  name_from_elements_def determine_entity_type_def new_psc_node_def sub_get_def
  sub_get_or_def truthy_def uk_countries_def strip_def is_space_def str_nat.simps
  digit_char_def set_children_def set_company_number_def set_error_def circular_node_def
  processing_error_def plain_exc_text_def

section \<open>The loop body, case by case\<close>

lemma process_pscs_ceased:
  "get_none (raw_ceased_on psc) \<noteq> None \<Longrightarrow>
     process_pscs w visited depth (psc # pscs) children errors
       = process_pscs w visited depth pscs children errors"
  by (simp add: process_pscs.simps)

lemma process_pscs_leaf_raises:
  "get_none (raw_ceased_on psc) = None \<Longrightarrow> psc_leaf psc (length children) = Inl ex \<Longrightarrow>
     process_pscs w visited depth (psc # pscs) children errors = (Some ex, children, errors)"
  by (simp add: process_pscs.simps)

lemma process_pscs_ident_raises:
  "get_none (raw_ceased_on psc) = None \<Longrightarrow>
   psc_leaf psc (length children) = Inr (psc_name, ''uk_company'', psc_node) \<Longrightarrow>
   sub_get (raw_identification psc) registration_number = Inl ex \<Longrightarrow>
     process_pscs w visited depth (psc # pscs) children errors = (Some ex, children, errors)"
  by (simp add: process_pscs.simps)

lemma process_pscs_kept:
  "get_none (raw_ceased_on psc) = None \<Longrightarrow>
   psc_leaf psc (length children) = Inr (psc_name, psc_type, psc_node) \<Longrightarrow>
   psc_type \<noteq> ''uk_company''
     \<or> sub_get (raw_identification psc) registration_number = Inr None
     \<or> sub_get (raw_identification psc) registration_number = Inr (Some []) \<Longrightarrow>
     process_pscs w visited depth (psc # pscs) children errors
       = process_pscs w visited depth pscs (children @ [psc_node]) errors"
  by (auto simp add: process_pscs.simps)

lemma process_pscs_expanded:
  "get_none (raw_ceased_on psc) = None \<Longrightarrow>
   psc_leaf psc (length children) = Inr (psc_name, ''uk_company'', psc_node) \<Longrightarrow>
   sub_get (raw_identification psc) registration_number = Inr (Some num) \<Longrightarrow> num \<noteq> [] \<Longrightarrow>
   build_ownership_tree w num (strip psc_name) visited errors (depth + 1)
     = (child_tree, visited_copy, errors') \<Longrightarrow>
     process_pscs w visited depth (psc # pscs) children errors
       = process_pscs w visited depth pscs
           (children @ [set_children (node_children child_tree)
                          (set_company_number (Some num) psc_node)]) errors'"
  by (simp add: process_pscs.simps)

lemma psc_cases [case_names ceased leaf_raises ident_raises kept expanded]:
  obtains
    (ceased) "get_none (raw_ceased_on psc) \<noteq> None"
  | (leaf_raises) ex where "get_none (raw_ceased_on psc) = None" "psc_leaf psc k = Inl ex"
  | (ident_raises) psc_name psc_node ex where "get_none (raw_ceased_on psc) = None"
      "psc_leaf psc k = Inr (psc_name, ''uk_company'', psc_node)"
      "sub_get (raw_identification psc) registration_number = Inl ex"
  | (kept) psc_name psc_type psc_node where "get_none (raw_ceased_on psc) = None"
      "psc_leaf psc k = Inr (psc_name, psc_type, psc_node)"
      "psc_type \<noteq> ''uk_company''
         \<or> sub_get (raw_identification psc) registration_number = Inr None
         \<or> sub_get (raw_identification psc) registration_number = Inr (Some [])"
  | (expanded) psc_name psc_node num where "get_none (raw_ceased_on psc) = None"
      "psc_leaf psc k = Inr (psc_name, ''uk_company'', psc_node)"
      "sub_get (raw_identification psc) registration_number = Inr (Some num)" "num \<noteq> []"
proof (cases "get_none (raw_ceased_on psc) \<noteq> None")
  case True
  then show ?thesis by (rule ceased)
next
  case active: False
  show ?thesis
  proof (cases "psc_leaf psc k")
    case (Inl ex)
    with active show ?thesis by (intro leaf_raises) auto
  next
    case (Inr r)
    obtain psc_name psc_type psc_node where r: "r = (psc_name, psc_type, psc_node)"
      by (cases r) auto
    show ?thesis
    proof (cases "psc_type = ''uk_company''")
      case False
      with active Inr r show ?thesis by (intro kept) auto
    next
      case uk: True
      show ?thesis
      proof (cases "sub_get (raw_identification psc) registration_number")
        case (Inl ex)
        with active Inr r uk show ?thesis by (intro ident_raises) auto
      next
        case reg: (Inr v)
        show ?thesis
        proof (cases v)
          case None
          with active Inr r reg show ?thesis by (intro kept) auto
        next
          case (Some num)
          show ?thesis
          proof (cases "num = []")
            case True
            with active Inr r reg Some show ?thesis by (intro kept) auto
          next
            case False
            with active Inr r reg Some uk show ?thesis by (intro expanded) auto
          qed
        qed
      qed
    qed
  qed
qed

text \<open>The induction rule of the two functions, with the cases of the loop body named.\<close>

lemma build_process_induct [case_names build nil ceased leaf_raises ident_raises kept expanded]:
  assumes build: "\<And>w company_number company_name visited errors depth.
      (\<And>pscs. company_number \<notin> visited \<Longrightarrow> get_company_pscs w company_number = Some pscs \<Longrightarrow>
          Q w (insert company_number visited) depth pscs [] errors) \<Longrightarrow>
      P w company_number company_name visited errors depth"
    and nil: "\<And>w visited depth children errors. Q w visited depth [] children errors"
    and ceased: "\<And>w visited depth psc pscs children errors.
      get_none (raw_ceased_on psc) \<noteq> None \<Longrightarrow> Q w visited depth pscs children errors \<Longrightarrow>
      Q w visited depth (psc # pscs) children errors"
    and leaf_raises: "\<And>w visited depth psc pscs children errors ex.
      get_none (raw_ceased_on psc) = None \<Longrightarrow> psc_leaf psc (length children) = Inl ex \<Longrightarrow>
      Q w visited depth (psc # pscs) children errors"
    and ident_raises: "\<And>w visited depth psc pscs children errors psc_name psc_node ex.
      get_none (raw_ceased_on psc) = None \<Longrightarrow>
      psc_leaf psc (length children) = Inr (psc_name, ''uk_company'', psc_node) \<Longrightarrow>
      sub_get (raw_identification psc) registration_number = Inl ex \<Longrightarrow>
      Q w visited depth (psc # pscs) children errors"
    and kept: "\<And>w visited depth psc pscs children errors psc_name psc_type psc_node.
      get_none (raw_ceased_on psc) = None \<Longrightarrow>
      psc_leaf psc (length children) = Inr (psc_name, psc_type, psc_node) \<Longrightarrow>
      psc_type \<noteq> ''uk_company''
        \<or> sub_get (raw_identification psc) registration_number = Inr None
        \<or> sub_get (raw_identification psc) registration_number = Inr (Some []) \<Longrightarrow>
      Q w visited depth pscs (children @ [psc_node]) errors \<Longrightarrow>
      Q w visited depth (psc # pscs) children errors"
    and expanded: "\<And>w visited depth psc pscs children errors psc_name psc_node num
        child_tree visited_copy errors'.
      get_none (raw_ceased_on psc) = None \<Longrightarrow>
      psc_leaf psc (length children) = Inr (psc_name, ''uk_company'', psc_node) \<Longrightarrow>
      sub_get (raw_identification psc) registration_number = Inr (Some num) \<Longrightarrow> num \<noteq> [] \<Longrightarrow>
      build_ownership_tree w num (strip psc_name) visited errors (depth + 1)
        = (child_tree, visited_copy, errors') \<Longrightarrow>
      P w num (strip psc_name) visited errors (depth + 1) \<Longrightarrow>
      Q w visited depth pscs
        (children @ [set_children (node_children child_tree)
                       (set_company_number (Some num) psc_node)]) errors' \<Longrightarrow>
      Q w visited depth (psc # pscs) children errors"
  shows "P w company_number company_name visited errors depth"
    and "Q w visited' depth' pscs children errors'"
proof (induction w company_number company_name visited errors depth
         and w visited' depth' pscs children errors'
       rule: build_ownership_tree_process_pscs.induct)
  case (1 w company_number company_name visited errors depth)
  show ?case
    by (rule build) (simp add: 1)
next
  case (2 w visited depth children errors)
  show ?case by (rule nil)
next
  case (3 w visited depth psc pscs children errors)
  show ?case
  proof (cases rule: psc_cases[where psc=psc and k="length children"])
    case ceased
    then show ?thesis using 3(1) assms(3) by blast
  next
    case (leaf_raises ex)
    then show ?thesis using assms(4) by blast
  next
    case (ident_raises psc_name psc_node ex)
    then show ?thesis using assms(5) by blast
  next
    case (kept psc_name psc_type psc_node)
    have "Q w visited depth pscs (children @ [psc_node]) errors"
      using kept by (intro 3(3)[of "(psc_name, psc_type, psc_node)" psc_name "(psc_type, psc_node)"
            psc_type psc_node "(psc_node, errors)" psc_node errors]) auto
    with kept show ?thesis using assms(6) by blast
  next
    case (expanded psc_name psc_node num)
    obtain child_tree visited_copy errors' where
      b: "build_ownership_tree w num (strip psc_name) visited errors (depth + 1)
            = (child_tree, visited_copy, errors')"
      by (cases "build_ownership_tree w num (strip psc_name) visited errors (depth + 1)") auto
    have p: "P w num (strip psc_name) visited errors (depth + 1)"
      using expanded
      by (intro 3(2)[of "(psc_name, ''uk_company'', psc_node)" psc_name "(''uk_company'', psc_node)"
            "''uk_company''" psc_node "Some num" num]) auto
    let ?n = "set_children (node_children child_tree) (set_company_number (Some num) psc_node)"
    have "Q w visited depth pscs (children @ [?n]) errors'"
      using expanded b
      by (intro 3(3)[of "(psc_name, ''uk_company'', psc_node)" psc_name "(''uk_company'', psc_node)"
            "''uk_company''" psc_node "(?n, errors')" ?n errors']) auto
    with expanded b p show ?thesis using assms(7) by blast
  qed
qed

section \<open>The tree does not depend on the error list or the depth handed in\<close>

lemma build_node_independent:
  shows "\<forall>errors0 depth0. fst (build_ownership_tree w company_number company_name visited errors depth)
           = fst (build_ownership_tree w company_number company_name visited errors0 depth0)"
    and "\<forall>errors0 depth0.
           fst (process_pscs w visited' depth' pscs children errors')
             = fst (process_pscs w visited' depth0 pscs children errors0)
         \<and> fst (snd (process_pscs w visited' depth' pscs children errors'))
             = fst (snd (process_pscs w visited' depth0 pscs children errors0))"
proof (induction w company_number company_name visited errors depth
         and w visited' depth' pscs children errors'
       rule: build_process_induct)
  case (build w company_number company_name visited errors depth)
  show ?case
  proof (intro allI)
    fix errors0 depth0
    show "fst (build_ownership_tree w company_number company_name visited errors depth)
           = fst (build_ownership_tree w company_number company_name visited errors0 depth0)"
    proof (cases "company_number \<in> visited")
      case True
      then show ?thesis by (simp add: build_ownership_tree.simps)
    next
      case False
      show ?thesis
      proof (cases "get_company_pscs w company_number")
        case None
        with False show ?thesis by (simp add: build_ownership_tree.simps Let_def)
      next
        case (Some pscs)
        let ?V = "insert company_number visited"
        obtain ex ch er where r: "process_pscs w ?V depth pscs [] errors = (ex, ch, er)"
          by (cases "process_pscs w ?V depth pscs [] errors") auto
        obtain ex0 ch0 er0 where r0: "process_pscs w ?V depth0 pscs [] errors0 = (ex0, ch0, er0)"
          by (cases "process_pscs w ?V depth0 pscs [] errors0") auto
        from build[OF False Some] r r0 have "ex = ex0" "ch = ch0"
          by (metis fst_conv snd_conv)+
        with False Some r r0 show ?thesis
          by (simp add: build_ownership_tree.simps Let_def split: option.splits)
      qed
    qed
  qed
next
  case (nil w visited depth children errors)
  show ?case by (simp add: process_pscs.simps)
next
  case (ceased w visited depth psc pscs children errors)
  then show ?case by (simp add: process_pscs_ceased)
next
  case (leaf_raises w visited depth psc pscs children errors ex)
  then show ?case by (simp add: process_pscs_leaf_raises)
next
  case (ident_raises w visited depth psc pscs children errors psc_name psc_node ex)
  then show ?case by (simp add: process_pscs_ident_raises)
next
  case (kept w visited depth psc pscs children errors psc_name psc_type psc_node)
  show ?case
    using kept(4) by (simp add: process_pscs_kept[OF kept(1,2,3)])
next
  case (expanded w visited depth psc pscs children errors psc_name psc_node num
      child_tree visited_copy errors')
  show ?case
  proof (intro allI)
    fix errors0 depth0
    obtain t0 v0 e0 where b0: "build_ownership_tree w num (strip psc_name) visited errors0 (depth0 + 1)
        = (t0, v0, e0)"
      by (cases "build_ownership_tree w num (strip psc_name) visited errors0 (depth0 + 1)") auto
    from expanded(6) expanded(5) b0 have t: "t0 = child_tree"
      by (metis fst_conv)
    show "fst (process_pscs w visited depth (psc # pscs) children errors)
            = fst (process_pscs w visited depth0 (psc # pscs) children errors0)
          \<and> fst (snd (process_pscs w visited depth (psc # pscs) children errors))
            = fst (snd (process_pscs w visited depth0 (psc # pscs) children errors0))"
      using expanded(7) t
      by (simp add: process_pscs_expanded[OF expanded(1,2,3,4,5)]
          process_pscs_expanded[OF expanded(1,2,3,4) b0])
  qed
qed

section \<open>The shape of the nodes\<close>

lemma set_children_simp [simp]:
  "set_children ch (PSCNode i nm ty cn cr noc ch0 act er) = PSCNode i nm ty cn cr noc ch act er"
  by (simp add: set_children_def)

lemma set_company_number_simp [simp]:
  "set_company_number cn (PSCNode i nm ty cn0 cr noc ch act er) = PSCNode i nm ty cn cr noc ch act er"
  by (simp add: set_company_number_def)

lemma set_error_simp [simp]:
  "set_error er (PSCNode i nm ty cn cr noc ch act er0) = PSCNode i nm ty cn cr noc ch act er"
  by (simp add: set_error_def)

lemma all_nodes_unfold: "all_nodes n = n # descendants n"
  by (cases n) (simp add: descendants_def)

lemma psc_leaf_node:
  assumes "psc_leaf psc k = Inr (psc_name, psc_type, psc_node)"
  shows "\<exists>i cr noc. psc_node = PSCNode i (strip psc_name) psc_type None cr noc [] True None"
    and "psc_display_name psc = Inr psc_name"
    and "determine_entity_type psc = Inr psc_type"
  using assms
  by (auto simp: psc_leaf_def new_psc_node_def split: sum.splits option.splits)

lemma build_root:
  assumes "build_ownership_tree w company_number company_name visited errors depth = (t, v, e)"
  shows "\<exists>nm ch er. t = PSCNode company_number nm ''uk_company'' (Some company_number) None [] ch True er"
  using assms
  by (auto simp: build_ownership_tree.simps circular_node_def Let_def
      split: if_splits option.splits prod.splits)

lemma build_circular:
  "company_number \<in> visited \<Longrightarrow>
     build_ownership_tree w company_number company_name visited errors depth
       = (circular_node company_number company_name, visited, errors)"
  by (simp add: build_ownership_tree.simps)

lemma build_children:
  assumes "company_number \<notin> visited"
  shows "node_children (fst (build_ownership_tree w company_number company_name visited errors depth))
           = (case get_company_pscs w company_number of
                None \<Rightarrow> []
              | Some pscs \<Rightarrow>
                  fst (snd (process_pscs w (insert company_number visited) depth pscs [] errors)))"
  using assms
  by (auto simp: build_ownership_tree.simps Let_def split: option.splits prod.splits)

section \<open>Properties of every node below the root\<close>

lemma built_descendants:
  assumes leaf: "\<And>psc k psc_name psc_type psc_node.
      psc_leaf psc k = Inr (psc_name, psc_type, psc_node) \<Longrightarrow> pr psc_node"
    and adopted: "\<And>psc k psc_name psc_node num ch.
      psc_leaf psc k = Inr (psc_name, ''uk_company'', psc_node) \<Longrightarrow> num \<noteq> [] \<Longrightarrow>
      pr (set_children ch (set_company_number (Some num) psc_node))"
  shows "\<forall>n \<in> set (descendants
            (fst (build_ownership_tree w company_number company_name visited errors depth))). pr n"
    and "(\<forall>c \<in> set children. \<forall>n \<in> set (all_nodes c). pr n) \<longrightarrow>
         (\<forall>c \<in> set (fst (snd (process_pscs w visited' depth' pscs children errors'))).
            \<forall>n \<in> set (all_nodes c). pr n)"
proof (induction w company_number company_name visited errors depth
         and w visited' depth' pscs children errors'
       rule: build_process_induct)
  case (build w company_number company_name visited errors depth)
  show ?case
  proof (cases "company_number \<in> visited")
    case True
    then show ?thesis by (simp add: build_circular circular_node_def descendants_def)
  next
    case False
    show ?thesis
    proof (cases "get_company_pscs w company_number")
      case None
      with False show ?thesis by (simp add: descendants_def build_children)
    next
      case (Some pscs)
      from build[OF False Some] False Some show ?thesis
        by (simp add: descendants_def build_children)
    qed
  qed
next
  case (nil w visited depth children errors)
  show ?case by (simp add: process_pscs.simps)
next
  case (ceased w visited depth psc pscs children errors)
  then show ?case by (simp add: process_pscs_ceased)
next
  case (leaf_raises w visited depth psc pscs children errors ex)
  then show ?case by (simp add: process_pscs_leaf_raises)
next
  case (ident_raises w visited depth psc pscs children errors psc_name psc_node ex)
  then show ?case by (simp add: process_pscs_ident_raises)
next
  case (kept w visited depth psc pscs children errors psc_name psc_type psc_node)
  from psc_leaf_node(1)[OF kept(2)] have "all_nodes psc_node = [psc_node]" by auto
  moreover have "pr psc_node" using leaf[OF kept(2)] .
  ultimately have "\<forall>n \<in> set (all_nodes psc_node). pr n" by simp
  with kept(4) show ?case
    unfolding process_pscs_kept[OF kept(1,2,3)] by auto
next
  case (expanded w visited depth psc pscs children errors psc_name psc_node num
      child_tree visited_copy errors')
  let ?n = "set_children (node_children child_tree) (set_company_number (Some num) psc_node)"
  have "pr ?n" using adopted[OF expanded(2,4)] .
  moreover obtain i cr noc where
    "psc_node = PSCNode i (strip psc_name) ''uk_company'' None cr noc [] True None"
    using psc_leaf_node(1)[OF expanded(2)] by blast
  then have "all_nodes ?n = ?n # descendants child_tree"
    by (simp add: descendants_def)
  moreover have "\<forall>n \<in> set (descendants child_tree). pr n"
    using expanded(6) expanded(5) by simp
  ultimately have "\<forall>n \<in> set (all_nodes ?n). pr n" by simp
  with expanded(7) show ?case
    unfolding process_pscs_expanded[OF expanded(1,2,3,4,5)] by auto
qed

lemma built_nodes:
  assumes root: "\<And>company_number nm ch er.
      pr (PSCNode company_number nm ''uk_company'' (Some company_number) None [] ch True er)"
    and leaf: "\<And>psc k psc_name psc_type psc_node.
      psc_leaf psc k = Inr (psc_name, psc_type, psc_node) \<Longrightarrow> pr psc_node"
    and adopted: "\<And>psc k psc_name psc_node num ch.
      psc_leaf psc k = Inr (psc_name, ''uk_company'', psc_node) \<Longrightarrow> num \<noteq> [] \<Longrightarrow>
      pr (set_children ch (set_company_number (Some num) psc_node))"
  shows "\<forall>n \<in> set (all_nodes
            (fst (build_ownership_tree w company_number company_name visited errors depth))). pr n"
proof -
  let ?t = "fst (build_ownership_tree w company_number company_name visited errors depth)"
  obtain v e where "build_ownership_tree w company_number company_name visited errors depth = (?t, v, e)"
    by (cases "build_ownership_tree w company_number company_name visited errors depth") auto
  from build_root[OF this] root have "pr ?t" by metis
  moreover have "\<forall>n \<in> set (descendants ?t). pr n"
  proof (rule built_descendants(1))
    show "\<And>psc k psc_name psc_type psc_node.
        psc_leaf psc k = Inr (psc_name, psc_type, psc_node) \<Longrightarrow> pr psc_node"
      by (rule leaf)
    show "\<And>psc k psc_name psc_node num ch.
        psc_leaf psc k = Inr (psc_name, ''uk_company'', psc_node) \<Longrightarrow> num \<noteq> [] \<Longrightarrow>
        pr (set_children ch (set_company_number (Some num) psc_node))"
      by (rule adopted)
  qed
  ultimately show ?thesis
    by (subst all_nodes_unfold) simp
qed

section \<open>Invariants of the built tree\<close>

text \<open>
  C8. In every tree that \<open>build_ownership_tree\<close> returns, a node whose type is not
  \<open>uk_company\<close> has no children, and a node that has children is of type \<open>uk_company\<close>
  and carries a company number.
\<close>

theorem leaf_invariant:
  "\<forall>n \<in> set (all_nodes
       (fst (build_ownership_tree w company_number company_name visited errors depth))).
     (node_type n \<noteq> ''uk_company'' \<longrightarrow> node_children n = []) \<and>
     (node_children n \<noteq> [] \<longrightarrow>
        node_type n = ''uk_company'' \<and> node_company_number n \<noteq> None)"
proof (rule built_nodes)
  fix psc k psc_name psc_type psc_node
  assume "psc_leaf psc k = Inr (psc_name, psc_type, psc_node)"
  from psc_leaf_node(1)[OF this]
  show "(node_type psc_node \<noteq> ''uk_company'' \<longrightarrow> node_children psc_node = []) \<and>
        (node_children psc_node \<noteq> [] \<longrightarrow>
           node_type psc_node = ''uk_company'' \<and> node_company_number psc_node \<noteq> None)"
    by auto
next
  fix psc k psc_name psc_node num ch
  let ?n = "set_children ch (set_company_number (Some (num::string)) psc_node)"
  assume "psc_leaf psc k = Inr (psc_name, ''uk_company'', psc_node)"
  from psc_leaf_node(1)[OF this]
  show "(node_type ?n \<noteq> ''uk_company'' \<longrightarrow> node_children ?n = []) \<and>
        (node_children ?n \<noteq> [] \<longrightarrow>
           node_type ?n = ''uk_company'' \<and> node_company_number ?n \<noteq> None)"
    by auto
qed simp

lemma acme_tree:
  "build_ownership_tree acme_world ''001'' ''Acme Ltd'' {} [] 0 =
     (PSCNode ''001'' ''Acme Ltd'' ''uk_company'' (Some ''001'') None []
        [PSCNode ''psc_0'' ''Jane Doe'' ''individual'' None (Some ''England'')
           [''voting-rights-25-to-50-percent''] [] True None,
         PSCNode ''psc_1'' ''Beta Ltd'' ''uk_company'' (Some ''002'') None
           [''ownership-of-shares-75-to-100-percent''] [] True None]
        True None,
      {''001''}, [])"
  by (simp add: eval_defs acme_world_def)

theorem leaf_invariant_witness:
  "PSCNode ''psc_0'' ''Jane Doe'' ''individual'' None (Some ''England'')
       [''voting-rights-25-to-50-percent''] [] True None
     \<in> set (all_nodes (fst (build_ownership_tree acme_world ''001'' ''Acme Ltd'' {} [] 0)))
   \<and> node_type (PSCNode ''psc_0'' ''Jane Doe'' ''individual'' None (Some ''England'')
       [''voting-rights-25-to-50-percent''] [] True None) \<noteq> ''uk_company''
   \<and> node_children (PSCNode ''psc_0'' ''Jane Doe'' ''individual'' None (Some ''England'')
       [''voting-rights-25-to-50-percent''] [] True None) = []"
  using leaf_invariant[of acme_world "''001''" "''Acme Ltd''" "{}" "[]" 0]
  by (simp add: acme_tree)

text \<open>
  C10. Every node of every tree that \<open>build_ownership_tree\<close> returns has \<open>is_active\<close>
  true: each node is made with the default and no statement assigns the field.
\<close>

theorem every_node_active:
  "\<forall>n \<in> set (all_nodes
       (fst (build_ownership_tree w company_number company_name visited errors depth))).
     node_is_active n"
proof (rule built_nodes)
  fix psc k psc_name psc_type psc_node
  assume "psc_leaf psc k = Inr (psc_name, psc_type, psc_node)"
  from psc_leaf_node(1)[OF this] show "node_is_active psc_node" by auto
next
  fix psc k psc_name psc_node num ch
  assume "psc_leaf psc k = Inr (psc_name, ''uk_company'', psc_node)"
  from psc_leaf_node(1)[OF this]
  show "node_is_active (set_children ch (set_company_number (Some (num::string)) psc_node))"
    by auto
qed simp

theorem every_node_active_witness:
  "PSCNode ''psc_1'' ''Beta Ltd'' ''uk_company'' (Some ''002'') None
       [''ownership-of-shares-75-to-100-percent''] [] True None
     \<in> set (all_nodes (fst (build_ownership_tree acme_world ''001'' ''Acme Ltd'' {} [] 0)))
   \<and> node_is_active (PSCNode ''psc_1'' ''Beta Ltd'' ''uk_company'' (Some ''002'') None
       [''ownership-of-shares-75-to-100-percent''] [] True None)"
  using every_node_active[of acme_world "''001''" "''Acme Ltd''" "{}" "[]" 0]
  by (simp add: acme_tree)

section \<open>A fetch that fails\<close>

text \<open>
  C1, as stated, fails: in the world where the fetch for ``001'' raises a transport
  error, the root node has no error and the response's error list is empty.
\<close>

theorem transport_error_counterexample:
  "http_get_pscs transport_error_world ''001'' = Raised TransportError
   \<and> get_ownership_structure transport_error_world ''Acme Ltd'' =
       Inr \<lparr>root_company =
              PSCNode ''001'' ''Acme Ltd'' ''uk_company'' (Some ''001'') None [] [] True None,
            total_nodes = 1, errors_list = []\<rparr>"
  by (simp add: eval_defs transport_error_world_def)

text \<open>
  C1, amended. When the fetch for a company raises, \<open>get_company_pscs\<close> returns the
  empty list: the node built for the company has no error and no children, and the
  error list is left as it was. In the request whose root company's fetch raises, the
  response has an empty error list and a node count of 1.
\<close>

theorem fetch_failure_swallowed:
  assumes "http_get_pscs w company_number = Raised e"
  shows "get_company_pscs w company_number = Some []
    \<and> (company_number \<notin> visited \<longrightarrow>
         build_ownership_tree w company_number company_name visited errors depth =
           (PSCNode company_number company_name ''uk_company'' (Some company_number) None [] []
              True None,
            insert company_number visited, errors))
    \<and> (search_company_by_name w query = Some company_info
         \<and> get_none (co_company_number company_info) = Some company_number
         \<and> company_number \<noteq> []
         \<and> get_none (co_title company_info) = Some company_name \<longrightarrow>
         get_ownership_structure w query =
           Inr \<lparr>root_company =
                  PSCNode company_number company_name ''uk_company'' (Some company_number)
                    None [] [] True None,
                total_nodes = 1, errors_list = []\<rparr>)"
proof -
  have pscs: "get_company_pscs w company_number = Some []"
    using assms by (simp add: get_company_pscs_def split: sum.splits)
  have tree: "build_ownership_tree w company_number company_name V es d =
      (PSCNode company_number company_name ''uk_company'' (Some company_number) None [] []
         True None, insert company_number V, es)"
    if "company_number \<notin> V" for V es d
    using that pscs by (simp add: build_ownership_tree.simps process_pscs.simps Let_def)
  have "get_ownership_structure w query =
           Inr \<lparr>root_company =
                  PSCNode company_number company_name ''uk_company'' (Some company_number)
                    None [] [] True None,
                total_nodes = 1, errors_list = []\<rparr>"
    if "search_company_by_name w query = Some company_info"
      "get_none (co_company_number company_info) = Some company_number"
      "company_number \<noteq> []" "get_none (co_title company_info) = Some company_name"
    using that tree[of "{}" "[]" 0] by (simp add: get_ownership_structure_def)
  with pscs tree show ?thesis by blast
qed

theorem fetch_failure_swallowed_witness:
  "http_get_pscs transport_error_world ''001'' = Raised TransportError
   \<and> get_company_pscs transport_error_world ''001'' = Some []
   \<and> build_ownership_tree transport_error_world ''001'' ''Acme Ltd'' {} [] 0 =
       (PSCNode ''001'' ''Acme Ltd'' ''uk_company'' (Some ''001'') None [] [] True None,
        {''001''}, [])
   \<and> get_ownership_structure transport_error_world ''Acme Ltd'' =
       Inr \<lparr>root_company =
              PSCNode ''001'' ''Acme Ltd'' ''uk_company'' (Some ''001'') None [] [] True None,
            total_nodes = 1, errors_list = []\<rparr>"
proof -
  let ?info = "\<lparr>co_company_status = Val ''active'', co_title = Val ''Acme Ltd'',
                  co_company_number = Val ''001''\<rparr>"
  have h: "http_get_pscs transport_error_world ''001'' = Raised TransportError"
    by (simp add: http_get_pscs_def transport_error_world_def)
  have s: "search_company_by_name transport_error_world ''Acme Ltd'' = Some ?info"
    by (simp add: eval_defs transport_error_world_def)
  from fetch_failure_swallowed[OF h, of "{}" "''Acme Ltd''" "[]" 0 "''Acme Ltd''" ?info] h s
  show ?thesis by (simp add: get_none_def)
qed

section \<open>A cycle\<close>

text \<open>
  C2 at its scenario, ``001'' owns ``002'' owns ``001''. The call for the second
  occurrence of ``001'' returns the node marked as a circular reference, but the loop
  takes only that node's (empty) children: the tree of the response holds the second
  occurrence as a plain node without an error and without the suffix in its name. The
  count is 3.
\<close>

theorem cycle_marker_dropped:
  "build_ownership_tree cycle_world ''001'' ''Acme Ltd'' {''001'', ''002''} [] 2 =
     (PSCNode ''001'' ''Acme Ltd (circular reference)'' ''uk_company'' (Some ''001'') None [] []
        True (Some ''Circular reference detected''),
      {''001'', ''002''}, [])
   \<and> get_ownership_structure cycle_world ''Acme Ltd'' =
     Inr \<lparr>root_company =
            PSCNode ''001'' ''Acme Ltd'' ''uk_company'' (Some ''001'') None []
              [PSCNode ''psc_0'' ''Beta Ltd'' ''uk_company'' (Some ''002'') None
                 [''ownership-of-shares-75-to-100-percent'']
                 [PSCNode ''psc_0'' ''Acme Ltd'' ''uk_company'' (Some ''001'') None
                    [''ownership-of-shares-75-to-100-percent''] [] True None]
                 True None]
              True None,
          total_nodes = 3, errors_list = []\<rparr>"
  by (simp add: eval_defs cycle_world_def)

section \<open>The depth of the recursion\<close>

lemma height_bound:
  "\<forall>c \<in> set ch. height c \<le> m \<Longrightarrow> height (PSCNode i nm ty cn cr noc ch act er) \<le> Suc m"
  by (induction ch) auto

lemma height_set_children [simp]:
  "height (set_children ch n) = height (PSCNode [] [] [] None None [] ch True None)"
  by (cases n) simp

lemma height_of_children:
  "node_children a = node_children b \<Longrightarrow> height a = height b"
  by (cases a; cases b) simp

lemma process_pscs_nil [simp]:
  "process_pscs w visited depth [] children errors = (None, children, errors)"
  by (simp add: process_pscs.simps)

lemma built_height:
  shows "height (fst (build_ownership_tree w company_number company_name visited errors depth))
           \<le> card (fst ` set (psc_http w) - visited)"
    and "(\<forall>c \<in> set children. height c \<le> card (fst ` set (psc_http w) - visited')) \<longrightarrow>
         (\<forall>c \<in> set (fst (snd (process_pscs w visited' depth' pscs children errors'))).
            height c \<le> card (fst ` set (psc_http w) - visited'))"
proof (induction w company_number company_name visited errors depth
         and w visited' depth' pscs children errors'
       rule: build_process_induct)
  case (build w company_number company_name visited errors depth)
  let ?t = "fst (build_ownership_tree w company_number company_name visited errors depth)"
  show ?case
  proof (cases "node_children ?t = []")
    case True
    then show ?thesis by (cases ?t) simp
  next
    case False
    have fresh: "company_number \<notin> visited"
      using False by (auto simp: build_circular circular_node_def)
    from False fresh obtain pscs where pscs: "get_company_pscs w company_number = Some pscs"
      by (auto simp: build_children split: option.splits)
    from False fresh pscs have "pscs \<noteq> []"
      by (auto simp: build_children)
    from build_call_decreases[OF fresh pscs this]
    have less: "card (fst ` set (psc_http w) - insert company_number visited)
                  < card (fst ` set (psc_http w) - visited)" .
    from build[OF fresh pscs] fresh pscs
    have "\<forall>c \<in> set (node_children ?t).
            height c \<le> card (fst ` set (psc_http w) - insert company_number visited)"
      by (simp add: build_children)
    then have "height ?t \<le> Suc (card (fst ` set (psc_http w) - insert company_number visited))"
      by (cases ?t) (simp add: height_bound del: height.simps)
    with less show ?thesis by simp
  qed
next
  case (nil w visited depth children errors)
  show ?case by simp
next
  case (ceased w visited depth psc pscs children errors)
  then show ?case by (simp add: process_pscs_ceased)
next
  case (leaf_raises w visited depth psc pscs children errors ex)
  then show ?case by (simp add: process_pscs_leaf_raises)
next
  case (ident_raises w visited depth psc pscs children errors psc_name psc_node ex)
  then show ?case by (simp add: process_pscs_ident_raises)
next
  case (kept w visited depth psc pscs children errors psc_name psc_type psc_node)
  from psc_leaf_node(1)[OF kept(2)] have "height psc_node = 0" by auto
  with kept(4) show ?case
    unfolding process_pscs_kept[OF kept(1,2,3)] by auto
next
  case (expanded w visited depth psc pscs children errors psc_name psc_node num
      child_tree visited_copy errors')
  let ?n = "set_children (node_children child_tree) (set_company_number (Some num) psc_node)"
  have "node_children ?n = node_children child_tree"
    using psc_leaf_node(1)[OF expanded(2)] by auto
  then have "height ?n = height child_tree" by (rule height_of_children)
  with expanded(6) expanded(5)
  have "height ?n \<le> card (fst ` set (psc_http w) - visited)" by simp
  with expanded(7) show ?case
    unfolding process_pscs_expanded[OF expanded(1,2,3,4,5)] by auto
qed

text \<open>
  C3. The registry lists finitely many companies, and \<open>build_ownership_tree\<close> is a
  total function on every such world (its termination is proved where it is defined,
  from the visited set of the branch). No path of the returned tree is longer than the
  number of listed companies outside the visited set, whatever the depth.
\<close>

theorem recursion_bounded_by_companies:
  "height (fst (build_ownership_tree w company_number company_name visited errors depth))
     \<le> card (fst ` set (psc_http w) - visited)
   \<and> height (fst (build_ownership_tree w company_number company_name {} errors depth))
     \<le> length (psc_http w)"
proof -
  have "card (fst ` set (psc_http w) - {}) \<le> length (psc_http w)"
    by (metis Diff_empty card_image_le card_length le_trans List.finite_set)
  with built_height(1)[of w company_number company_name "{}" errors depth]
    built_height(1)[of w company_number company_name visited errors depth]
  show ?thesis by linarith
qed

theorem recursion_bounded_by_companies_witness:
  "height (fst (build_ownership_tree cycle_world ''001'' ''Acme Ltd'' {} [] 0)) = 2
   \<and> card (fst ` set (psc_http cycle_world) - {}) = 2"
proof -
  have "height (fst (build_ownership_tree cycle_world ''001'' ''Acme Ltd'' {} [] 0)) = 2"
    by (simp add: eval_defs cycle_world_def)
  moreover have "card (fst ` set (psc_http cycle_world) - {}) = 2"
    by (simp add: cycle_world_def)
  ultimately show ?thesis
    using recursion_bounded_by_companies[of cycle_world "''001''" "''Acme Ltd''" "{}" "[]" 0]
    by simp
qed

section \<open>Classification\<close>








section \<open>Ceased records\<close>

text \<open>
  C7, as stated, fails: a record whose \<open>ceased_on\<close> is present and the empty string is
  skipped. The loop asks whether the member is \<open>None\<close>, not whether it is empty.
\<close>

theorem empty_ceased_counterexample:
  "raw_ceased_on empty_ceased_psc = Val []
   \<and> process_pscs acme_world {''001''} 0 [empty_ceased_psc] [] [] = (None, [], [])
   \<and> process_pscs acme_world {''001''} 0 [individual_psc ''Jane'' ''Doe''] [] [] =
       (None,
        [PSCNode ''psc_0'' ''Jane Doe'' ''individual'' None (Some ''England'')
           [''voting-rights-25-to-50-percent''] [] True None],
        [])"
  by (simp add: empty_ceased_psc_def eval_defs)

lemma process_pscs_skip:
  assumes "get_none (raw_ceased_on psc) \<noteq> None"
  shows "process_pscs w visited depth (pre @ psc # post) children errors
           = process_pscs w visited depth (pre @ post) children errors"
proof (induction pre arbitrary: children errors)
  case Nil
  show ?case using assms by (simp add: process_pscs_ceased)
next
  case (Cons a pre)
  show ?case
  proof (cases rule: psc_cases[where psc=a and k="length children"])
    case ceased
    then show ?thesis by (simp add: process_pscs_ceased Cons.IH)
  next
    case (leaf_raises ex)
    then show ?thesis by (simp add: process_pscs_leaf_raises)
  next
    case (ident_raises psc_name psc_node ex)
    then show ?thesis by (simp add: process_pscs_ident_raises)
  next
    case (kept psc_name psc_type psc_node)
    show ?thesis
      by (simp add: process_pscs_kept[OF kept] Cons.IH)
  next
    case (expanded psc_name psc_node num)
    obtain child_tree visited_copy errors' where
      b: "build_ownership_tree w num (strip psc_name) visited errors (depth + 1)
            = (child_tree, visited_copy, errors')"
      by (cases "build_ownership_tree w num (strip psc_name) visited errors (depth + 1)") auto
    show ?thesis
      by (simp add: process_pscs_expanded[OF expanded b] Cons.IH)
  qed
qed

lemma process_pscs_single:
  assumes "get_none (raw_ceased_on psc) = None"
  shows "(\<exists>ex. process_pscs w visited depth [psc] children errors = (Some ex, children, errors))
       \<or> (\<exists>psc_name psc_type node errors'.
             psc_display_name psc = Inr psc_name
           \<and> determine_entity_type psc = Inr psc_type
           \<and> process_pscs w visited depth [psc] children errors
               = (None, children @ [node], errors')
           \<and> node_name node = strip psc_name \<and> node_type node = psc_type)"
proof (cases rule: psc_cases[where psc=psc and k="length children"])
  case ceased
  with assms show ?thesis by simp
next
  case (leaf_raises ex)
  then show ?thesis by (simp add: process_pscs_leaf_raises)
next
  case (ident_raises psc_name psc_node ex)
  then show ?thesis by (simp add: process_pscs_ident_raises)
next
  case (kept psc_name psc_type psc_node)
  from psc_leaf_node(1)[OF kept(2)] obtain i cr noc where
    n: "psc_node = PSCNode i (strip psc_name) psc_type None cr noc [] True None" by blast
  with psc_leaf_node(2,3)[OF kept(2)] have
    "psc_display_name psc = Inr psc_name
     \<and> determine_entity_type psc = Inr psc_type
     \<and> process_pscs w visited depth [psc] children errors
         = (None, children @ [psc_node], errors)
     \<and> node_name psc_node = strip psc_name \<and> node_type psc_node = psc_type"
    by (simp add: process_pscs_kept[OF kept])
  then show ?thesis by blast
next
  case (expanded psc_name psc_node num)
  obtain child_tree visited_copy errors' where
    b: "build_ownership_tree w num (strip psc_name) visited errors (depth + 1)
          = (child_tree, visited_copy, errors')"
    by (cases "build_ownership_tree w num (strip psc_name) visited errors (depth + 1)") auto
  from psc_leaf_node(1)[OF expanded(2)] obtain i cr noc where
    n: "psc_node = PSCNode i (strip psc_name) ''uk_company'' None cr noc [] True None" by blast
  let ?m = "set_children (node_children child_tree) (set_company_number (Some num) psc_node)"
  from n psc_leaf_node(2,3)[OF expanded(2)] have
    "psc_display_name psc = Inr psc_name
     \<and> determine_entity_type psc = Inr ''uk_company''
     \<and> process_pscs w visited depth [psc] children errors = (None, children @ [?m], errors')
     \<and> node_name ?m = strip psc_name \<and> node_type ?m = ''uk_company''"
    by (simp add: process_pscs_expanded[OF expanded b])
  then show ?thesis by blast
qed

lemma process_pscs_step:
  "process_pscs w visited depth (psc # pscs) children errors =
     (case process_pscs w visited depth [psc] children errors of
        (None, children', errors') \<Rightarrow> process_pscs w visited depth pscs children' errors'
      | (Some ex, children', errors') \<Rightarrow> (Some ex, children', errors'))"
proof (cases rule: psc_cases[where psc=psc and k="length children"])
  case ceased
  then show ?thesis by (simp add: process_pscs_ceased)
next
  case (leaf_raises ex)
  then show ?thesis by (simp add: process_pscs_leaf_raises)
next
  case (ident_raises psc_name psc_node ex)
  then show ?thesis by (simp add: process_pscs_ident_raises)
next
  case (kept psc_name psc_type psc_node)
  show ?thesis by (simp add: process_pscs_kept[OF kept])
next
  case (expanded psc_name psc_node num)
  obtain child_tree visited_copy errors' where
    b: "build_ownership_tree w num (strip psc_name) visited errors (depth + 1)
          = (child_tree, visited_copy, errors')"
    by (cases "build_ownership_tree w num (strip psc_name) visited errors (depth + 1)") auto
  show ?thesis by (simp add: process_pscs_expanded[OF expanded b])
qed

text \<open>
  C7, amended. A record is skipped exactly when its \<open>ceased_on\<close> is present and not
  \<open>null\<close>, the empty string included: taking such a record out of the fetched list
  changes nothing. A record whose \<open>ceased_on\<close> is absent or \<open>null\<close>, once the loop
  reaches it, either appends one node (named by the trimmed display name, typed by the
  classifier) or raises and ends the loop; the loop over a list is the step on its first
  record followed by the loop over the rest.
\<close>

theorem ceased_records_skipped:
  "(get_none (raw_ceased_on psc) \<noteq> None \<longrightarrow>
      process_pscs w visited depth (pre @ psc # post) children errors
        = process_pscs w visited depth (pre @ post) children errors)
   \<and> (get_none (raw_ceased_on psc) = None \<longrightarrow>
        (\<exists>ex. process_pscs w visited depth [psc] children errors = (Some ex, children, errors))
      \<or> (\<exists>psc_name psc_type node errors'.
            psc_display_name psc = Inr psc_name
          \<and> determine_entity_type psc = Inr psc_type
          \<and> process_pscs w visited depth [psc] children errors
              = (None, children @ [node], errors')
          \<and> node_name node = strip psc_name \<and> node_type node = psc_type))
   \<and> process_pscs w visited depth (psc # post) children errors =
       (case process_pscs w visited depth [psc] children errors of
          (None, children', errors') \<Rightarrow> process_pscs w visited depth post children' errors'
        | (Some ex, children', errors') \<Rightarrow> (Some ex, children', errors'))"
  using process_pscs_skip[of psc w visited depth pre post children errors]
    process_pscs_single[of psc w visited depth children errors]
    process_pscs_step[of w visited depth psc post children errors]
  by blast

theorem ceased_records_skipped_witness:
  "get_none (raw_ceased_on empty_ceased_psc) \<noteq> None
   \<and> process_pscs acme_world {''001''} 0
        ([individual_psc ''Jane'' ''Doe''] @ empty_ceased_psc # []) [] []
       = process_pscs acme_world {''001''} 0 ([individual_psc ''Jane'' ''Doe''] @ []) [] []
   \<and> get_none (raw_ceased_on (individual_psc ''Jane'' ''Doe'')) = None
   \<and> process_pscs acme_world {''001''} 0 [individual_psc ''Jane'' ''Doe''] [] [] =
       (None,
        [PSCNode ''psc_0'' ''Jane Doe'' ''individual'' None (Some ''England'')
           [''voting-rights-25-to-50-percent''] [] True None],
        [])"
proof -
  have c: "get_none (raw_ceased_on empty_ceased_psc) \<noteq> None"
    by (simp add: empty_ceased_psc_def get_none_def)
  have a: "get_none (raw_ceased_on (individual_psc ''Jane'' ''Doe'')) = None"
    by (simp add: individual_psc_def get_none_def)
  have r: "process_pscs acme_world {''001''} 0 [individual_psc ''Jane'' ''Doe''] [] [] =
       (None,
        [PSCNode ''psc_0'' ''Jane Doe'' ''individual'' None (Some ''England'')
           [''voting-rights-25-to-50-percent''] [] True None],
        [])"
    by (simp add: eval_defs)
  from ceased_records_skipped[of empty_ceased_psc acme_world "{''001''}" 0
      "[individual_psc ''Jane'' ''Doe'']" "[]" "[]" "[]"] c
  have "process_pscs acme_world {''001''} 0
        ([individual_psc ''Jane'' ''Doe''] @ empty_ceased_psc # []) [] []
       = process_pscs acme_world {''001''} 0 ([individual_psc ''Jane'' ''Doe''] @ []) [] []"
    by blast
  with c a r show ?thesis by blast
qed

section \<open>Names\<close>






section \<open>Branches\<close>

text \<open>Every child that the loop appends is a leaf without a company number, or carries
  the children that \<open>build_ownership_tree\<close> returns for its company number under the
  visited set of the loop.\<close>

lemma process_children_shape:
  assumes "\<forall>c \<in> set children.
      (node_company_number c = None \<and> node_children c = []) \<or>
      (\<exists>num. node_company_number c = Some num \<and>
         (\<forall>errors0 depth0. node_children c =
            node_children (fst (build_ownership_tree w num (node_name c) visited errors0 depth0))))"
  shows "\<forall>c \<in> set (fst (snd (process_pscs w visited depth pscs children errors))).
      (node_company_number c = None \<and> node_children c = []) \<or>
      (\<exists>num. node_company_number c = Some num \<and>
         (\<forall>errors0 depth0. node_children c =
            node_children (fst (build_ownership_tree w num (node_name c) visited errors0 depth0))))"
  using assms
proof (induction pscs arbitrary: children errors)
  case Nil
  then show ?case by simp
next
  case (Cons psc pscs)
  show ?case
  proof (cases rule: psc_cases[where psc=psc and k="length children"])
    case ceased
    then show ?thesis using Cons by (simp add: process_pscs_ceased)
  next
    case (leaf_raises ex)
    then show ?thesis using Cons.prems by (simp add: process_pscs_leaf_raises)
  next
    case (ident_raises psc_name psc_node ex)
    then show ?thesis using Cons.prems by (simp add: process_pscs_ident_raises)
  next
    case (kept psc_name psc_type psc_node)
    from psc_leaf_node(1)[OF kept(2)]
    have "node_company_number psc_node = None \<and> node_children psc_node = []" by auto
    with Cons.prems show ?thesis
      unfolding process_pscs_kept[OF kept]
      by (intro Cons.IH) auto
  next
    case (expanded psc_name psc_node num)
    obtain child_tree visited_copy errors' where
      b: "build_ownership_tree w num (strip psc_name) visited errors (depth + 1)
            = (child_tree, visited_copy, errors')"
      by (cases "build_ownership_tree w num (strip psc_name) visited errors (depth + 1)") auto
    let ?n = "set_children (node_children child_tree) (set_company_number (Some num) psc_node)"
    from psc_leaf_node(1)[OF expanded(2)]
    have n: "node_company_number ?n = Some num" "node_name ?n = strip psc_name"
      "node_children ?n = node_children child_tree"
      by auto
    have "node_children child_tree =
            node_children (fst (build_ownership_tree w num (strip psc_name) visited errors0 depth0))"
      for errors0 depth0
      using build_node_independent(1)[of w num "strip psc_name" visited errors "depth + 1"] b
      by (metis fst_conv)
    with n have "\<exists>num. node_company_number ?n = Some num \<and>
         (\<forall>errors0 depth0. node_children ?n =
            node_children (fst (build_ownership_tree w num (node_name ?n) visited errors0 depth0)))"
      by simp
    with Cons.prems show ?thesis
      unfolding process_pscs_expanded[OF expanded b]
      by (intro Cons.IH) auto
  qed
qed

lemma built_children_shape:
  assumes "c \<in> set (node_children
      (fst (build_ownership_tree w company_number company_name visited errors depth)))"
  shows "company_number \<notin> visited"
    and "(node_company_number c = None \<and> node_children c = []) \<or>
      (\<exists>num. node_company_number c = Some num \<and>
         (\<forall>errors0 depth0. node_children c =
            node_children (fst (build_ownership_tree w num (node_name c)
                                  (insert company_number visited) errors0 depth0))))"
proof -
  show fresh: "company_number \<notin> visited"
    using assms by (auto simp: build_circular circular_node_def)
  have "\<exists>pscs. get_company_pscs w company_number = Some pscs
    \<and> c \<in> set (fst (snd (process_pscs w (insert company_number visited) depth pscs [] errors)))"
    using assms fresh
    by (cases "get_company_pscs w company_number") (simp_all add: build_children)
  then obtain pscs where "get_company_pscs w company_number = Some pscs"
    and "c \<in> set (fst (snd (process_pscs w (insert company_number visited) depth pscs [] errors)))"
    by blast
  with process_children_shape[of "[]" w "insert company_number visited" depth pscs errors]
  show "(node_company_number c = None \<and> node_children c = []) \<or>
      (\<exists>num. node_company_number c = Some num \<and>
         (\<forall>errors0 depth0. node_children c =
            node_children (fst (build_ownership_tree w num (node_name c)
                                  (insert company_number visited) errors0 depth0))))"
    by simp
qed

lemma subtree_children_cong:
  "p \<noteq> [] \<Longrightarrow> node_children a = node_children b \<Longrightarrow> subtree a p = subtree b p"
  by (cases p) simp_all

lemma path_numbers_cong:
  "p \<noteq> [] \<Longrightarrow> node_children a = node_children b \<Longrightarrow>
   node_company_number a = node_company_number b \<Longrightarrow> path_numbers a p = path_numbers b p"
  by (cases p) simp_all

lemma build_company_number:
  "node_company_number (fst (build_ownership_tree w company_number company_name visited errors depth))
     = Some company_number"
proof -
  obtain t v e where b: "build_ownership_tree w company_number company_name visited errors depth = (t, v, e)"
    by (cases "build_ownership_tree w company_number company_name visited errors depth") auto
  from build_root[OF b] b show ?thesis by auto
qed

lemma subtree_expansion:
  assumes "subtree (fst (build_ownership_tree w company_number company_name visited errors depth)) p
             = Some n"
    and "p \<noteq> []" and "node_company_number n = Some a"
  shows "node_children n =
           node_children (fst (build_ownership_tree w a (node_name n)
             (visited \<union> path_numbers
                (fst (build_ownership_tree w company_number company_name visited errors depth)) p)
             errors0 depth0))"
  using assms
proof (induction p arbitrary: company_number company_name visited errors depth)
  case Nil
  then show ?case by simp
next
  case (Cons i q)
  let ?t = "fst (build_ownership_tree w company_number company_name visited errors depth)"
  let ?c = "node_children ?t ! i"
  from Cons.prems(1) have i: "i < length (node_children ?t)" and sub: "subtree ?c q = Some n"
    by (auto split: if_splits)
  then have mem: "?c \<in> set (node_children ?t)" by simp
  note shape = built_children_shape[OF mem]
  have path: "path_numbers ?t (i # q) = insert company_number (path_numbers ?c q)"
    using i by (simp add: build_company_number)
  show ?case
  proof (cases "q = []")
    case True
    with sub have "n = ?c" by simp
    with shape(2) Cons.prems(3) True path show ?thesis by auto
  next
    case False
    from False sub have "node_children ?c \<noteq> []"
      by (cases q) (auto split: if_splits)
    with shape(2) obtain num where num: "node_company_number ?c = Some num"
      and ch: "\<And>errors0 depth0. node_children ?c =
            node_children (fst (build_ownership_tree w num (node_name ?c)
                                  (insert company_number visited) errors0 depth0))"
      by auto
    let ?t' = "fst (build_ownership_tree w num (node_name ?c) (insert company_number visited)
                      errors depth)"
    have "subtree ?t' q = Some n"
      using subtree_children_cong[OF False ch[of errors depth]] sub by simp
    from Cons.IH[OF this False Cons.prems(3)]
    have "node_children n =
           node_children (fst (build_ownership_tree w a (node_name n)
             (insert company_number visited \<union> path_numbers ?t' q) errors0 depth0))" .
    moreover have "path_numbers ?t' q = path_numbers ?c q"
      using path_numbers_cong[OF False ch[of errors depth]] num
      by (simp add: build_company_number)
    ultimately show ?thesis unfolding path by simp
  qed
qed

lemma not_marked_circular:
  assumes "company_number \<notin> visited"
  shows "node_error (fst (build_ownership_tree w company_number company_name visited errors depth))
           \<noteq> Some ''Circular reference detected''"
  using assms
  by (auto simp: build_ownership_tree.simps Let_def processing_error_def
      split: option.splits prod.splits)

text \<open>
  C4. In a tree built from the empty visited set, let a node below the root carry the
  company number \<open>a\<close>. Its children are those that \<open>build_ownership_tree\<close> returns for
  \<open>a\<close> under the visited set that holds the company numbers of the node's own ancestors
  and nothing else. So unless \<open>a\<close> is one of its own ancestors, the call is not the one
  that marks a circular reference and the children come from the loop over the records
  of \<open>a\<close>, whatever other branches of the tree have visited.
\<close>

theorem branch_isolation:
  assumes "subtree (fst (build_ownership_tree w company_number company_name {} errors depth)) p
             = Some n"
    and "p \<noteq> []" and "node_company_number n = Some a"
  shows "node_children n =
           node_children (fst (build_ownership_tree w a (node_name n)
             (path_numbers (fst (build_ownership_tree w company_number company_name {} errors depth)) p)
             errors0 depth0))
    \<and> (a \<notin> path_numbers (fst (build_ownership_tree w company_number company_name {} errors depth)) p
        \<longrightarrow>
          node_error (fst (build_ownership_tree w a (node_name n)
             (path_numbers (fst (build_ownership_tree w company_number company_name {} errors depth)) p)
             errors0 depth0)) \<noteq> Some ''Circular reference detected''
        \<and> node_children n =
            (case get_company_pscs w a of
               None \<Rightarrow> []
             | Some pscs \<Rightarrow>
                 fst (snd (process_pscs w
                   (insert a (path_numbers
                      (fst (build_ownership_tree w company_number company_name {} errors depth)) p))
                   depth0 pscs [] errors0))))"
proof -
  let ?V = "path_numbers (fst (build_ownership_tree w company_number company_name {} errors depth)) p"
  have ch: "node_children n =
           node_children (fst (build_ownership_tree w a (node_name n) ?V errors0 depth0))"
    using subtree_expansion[OF assms, of errors0 depth0] by simp
  moreover have "node_error (fst (build_ownership_tree w a (node_name n) ?V errors0 depth0))
                   \<noteq> Some ''Circular reference detected''" if "a \<notin> ?V"
    using that by (rule not_marked_circular)
  moreover have "node_children n =
            (case get_company_pscs w a of
               None \<Rightarrow> []
             | Some pscs \<Rightarrow> fst (snd (process_pscs w (insert a ?V) depth0 pscs [] errors0)))"
    if "a \<notin> ?V"
    using ch build_children[OF that, of w "node_name n" errors0 depth0] by simp
  ultimately show ?thesis by blast
qed

lemma diamond_tree:
  "fst (build_ownership_tree diamond_world ''001'' ''Acme Ltd'' {} [] 0) =
     PSCNode ''001'' ''Acme Ltd'' ''uk_company'' (Some ''001'') None []
       [PSCNode ''psc_0'' ''Left Ltd'' ''uk_company'' (Some ''002'') None
          [''ownership-of-shares-75-to-100-percent'']
          [PSCNode ''psc_0'' ''Shared Ltd'' ''uk_company'' (Some ''004'') None
             [''ownership-of-shares-75-to-100-percent'']
             [PSCNode ''psc_0'' ''Jane Doe'' ''individual'' None (Some ''England'')
                [''voting-rights-25-to-50-percent''] [] True None]
             True None]
          True None,
        PSCNode ''psc_1'' ''Right Ltd'' ''uk_company'' (Some ''003'') None
          [''ownership-of-shares-75-to-100-percent'']
          [PSCNode ''psc_0'' ''Shared Ltd'' ''uk_company'' (Some ''004'') None
             [''ownership-of-shares-75-to-100-percent'']
             [PSCNode ''psc_0'' ''Jane Doe'' ''individual'' None (Some ''England'')
                [''voting-rights-25-to-50-percent''] [] True None]
             True None]
          True None]
       True None"
  by (simp add: eval_defs diamond_world_def)

theorem branch_isolation_witness:
  "subtree (fst (build_ownership_tree diamond_world ''001'' ''Acme Ltd'' {} [] 0)) [1, 0] =
     Some (PSCNode ''psc_0'' ''Shared Ltd'' ''uk_company'' (Some ''004'') None
             [''ownership-of-shares-75-to-100-percent'']
             [PSCNode ''psc_0'' ''Jane Doe'' ''individual'' None (Some ''England'')
                [''voting-rights-25-to-50-percent''] [] True None]
             True None)
   \<and> subtree (fst (build_ownership_tree diamond_world ''001'' ''Acme Ltd'' {} [] 0)) [0, 0] =
       subtree (fst (build_ownership_tree diamond_world ''001'' ''Acme Ltd'' {} [] 0)) [1, 0]
   \<and> path_numbers (fst (build_ownership_tree diamond_world ''001'' ''Acme Ltd'' {} [] 0)) [1, 0]
       = {''001'', ''003''}
   \<and> ''004'' \<notin> {''001'', ''003''}
   \<and> node_children (fst (build_ownership_tree diamond_world ''004'' ''Shared Ltd''
                           {''001'', ''003''} [] 0))
       = [PSCNode ''psc_0'' ''Jane Doe'' ''individual'' None (Some ''England'')
            [''voting-rights-25-to-50-percent''] [] True None]
   \<and> node_error (fst (build_ownership_tree diamond_world ''004'' ''Shared Ltd''
                           {''001'', ''003''} [] 0))
       \<noteq> Some ''Circular reference detected''"
proof -
  let ?t = "fst (build_ownership_tree diamond_world ''001'' ''Acme Ltd'' {} [] 0)"
  let ?jane = "PSCNode ''psc_0'' ''Jane Doe'' ''individual'' None (Some ''England'')
                [''voting-rights-25-to-50-percent''] [] True None"
  let ?n = "PSCNode ''psc_0'' ''Shared Ltd'' ''uk_company'' (Some ''004'') None
             [''ownership-of-shares-75-to-100-percent''] [?jane] True None"
  have s: "subtree ?t [1, 0] = Some ?n" and s0: "subtree ?t [0, 0] = Some ?n"
    by (simp_all add: diamond_tree)
  have p: "path_numbers ?t [1, 0] = {''001'', ''003''}"
    by (auto simp add: diamond_tree)
  have c: "node_company_number ?n = Some ''004''" by simp
  have fresh: "''004'' \<notin> {''001'', ''003''}" by simp
  have ne: "[1, 0::nat] \<noteq> []" by simp
  from branch_isolation[OF s ne c, of "[]" 0, unfolded p] fresh
  have "node_children ?n =
          node_children (fst (build_ownership_tree diamond_world ''004'' ''Shared Ltd''
                           {''001'', ''003''} [] 0))"
    and "node_error (fst (build_ownership_tree diamond_world ''004'' ''Shared Ltd''
                           {''001'', ''003''} [] 0)) \<noteq> Some ''Circular reference detected''"
    by simp_all
  with s s0 p fresh show ?thesis by simp
qed

section \<open>The mark of a cycle never reaches the response\<close>

text \<open>No node of a tree built for a company outside the visited set carries the mark:
  the nodes below the root have no error at all.\<close>

lemma circular_mark_never_in_tree:
  assumes "company_number \<notin> visited"
  shows "\<forall>n \<in> set (all_nodes
           (fst (build_ownership_tree w company_number company_name visited errors depth))).
         node_error n \<noteq> Some ''Circular reference detected''"
proof -
  let ?t = "fst (build_ownership_tree w company_number company_name visited errors depth)"
  have "\<forall>n \<in> set (descendants ?t). node_error n = None"
  proof (rule built_descendants(1))
    fix psc k psc_name psc_type psc_node
    assume "psc_leaf psc k = Inr (psc_name, psc_type, psc_node)"
    from psc_leaf_node(1)[OF this] show "node_error psc_node = None" by auto
  next
    fix psc k psc_name psc_node num ch
    assume "psc_leaf psc k = Inr (psc_name, ''uk_company'', psc_node)"
    from psc_leaf_node(1)[OF this]
    show "node_error (set_children ch (set_company_number (Some (num::string)) psc_node)) = None"
      by auto
  qed
  moreover have "node_error ?t \<noteq> Some ''Circular reference detected''"
    using assms by (rule not_marked_circular)
  ultimately show ?thesis
    by (subst all_nodes_unfold) auto
qed

end
